theory Spec2Isabelle
  imports Main
begin

section \<open>Input streams\<close>

text \<open>
  \<^verbatim>\<open>src/io/trajectory_reader.cpp\<close> reads its files through \<^verbatim>\<open>std::ifstream\<close> and
  tokenizes each line through a \<^verbatim>\<open>std::stringstream\<close>. Both are modelled by one record:
  the characters of the stream, the read position and the two state flags the code
  depends on. A stream is good when neither flag is set. A file is taken to have been
  opened; read errors of the device (badbit) are not modelled.
\<close>

record istream =
  content :: string
  pos :: nat
  eofbit :: bool
  failbit :: bool

definition open_stream :: "string \<Rightarrow> istream" where
  "open_stream s = \<lparr>content = s, pos = 0, eofbit = False, failbit = False\<rparr>"

definition good :: "istream \<Rightarrow> bool" where
  "good s \<longleftrightarrow> \<not> eofbit s \<and> \<not> failbit s"

definition rest :: "istream \<Rightarrow> string" where
  "rest s = drop (pos s) (content s)"

text \<open>
  \<^verbatim>\<open>peek()\<close>: on a stream that is not good the sentry sets failbit and the call returns
  EOF (\<open>None\<close>); on a good stream it returns the next character without extracting it,
  or sets eofbit and returns EOF when no character is left.
\<close>

definition peek :: "istream \<Rightarrow> char option \<times> istream" where
  "peek s =
     (if \<not> good s then (None, s\<lparr>failbit := True\<rparr>)
      else (case rest s of
              [] \<Rightarrow> (None, s\<lparr>eofbit := True\<rparr>)
            | c # _ \<Rightarrow> (Some c, s)))"

text \<open>
  \<^verbatim>\<open>std::getline(stream, str, d)\<close>: on a stream that is not good the sentry sets failbit
  and \<^verbatim>\<open>str\<close> is left as it was (\<open>None\<close>). Otherwise \<^verbatim>\<open>str\<close> is erased and characters
  are extracted up to the delimiter, which is extracted and dropped, or up to the end
  of the stream, which sets eofbit; failbit is set when nothing at all was extracted.
\<close>

definition getline :: "char \<Rightarrow> istream \<Rightarrow> string option \<times> istream" where
  "getline d s =
     (if \<not> good s then (None, s\<lparr>failbit := True\<rparr>)
      else (let tok = takeWhile (\<lambda>c. c \<noteq> d) (rest s) in
            if length tok < length (rest s)
            then (Some tok, s\<lparr>pos := pos s + length tok + 1\<rparr>)
            else (Some tok, s\<lparr>pos := pos s + length tok, eofbit := True,
                                failbit := (tok = [])\<rparr>)))"

text \<open>\<^verbatim>\<open>clear()\<close> followed by \<^verbatim>\<open>seekg(0, std::ios::beg)\<close>.\<close>

definition clear_seekg0 :: "istream \<Rightarrow> istream" where
  "clear_seekg0 s = s\<lparr>pos := 0, eofbit := False, failbit := False\<rparr>"

section \<open>Record tokenizer\<close>

text \<open>
  The loop \<^verbatim>\<open>while (std::getline(ss, intermediate, delim)) { ... ++index; }\<close> of every
  reader: the tokens it hands to its body, in order. The loop stops at the first call
  that leaves failbit set.
\<close>

function tokens_from :: "char \<Rightarrow> istream \<Rightarrow> string list" where
  "tokens_from d s =
     (case getline d s of
        (None, s') \<Rightarrow> []
      | (Some tok, s') \<Rightarrow> if failbit s' then [] else tok # tokens_from d s')"
  by pat_completeness auto
termination
proof (relation "measure (\<lambda>(d, s). length (content s) - pos s)")
  show "wf (measure (\<lambda>(d, s). length (content s) - pos s))"
    by simp
next
  fix d s x tok s'
  assume "(x, s') = getline d s" and "x = Some tok" and "\<not> failbit s'"
  then have g: "getline d s = (Some tok, s')" and nf: "\<not> failbit s'"
    by simp_all
  from g have gd: "good s"
    by (auto simp: getline_def split: if_splits)
  let ?t = "takeWhile (\<lambda>c. c \<noteq> d) (rest s)"
  have le: "length ?t \<le> length (rest s)"
    by (rule length_takeWhile_le)
  have "length (content s') - pos s' < length (content s) - pos s"
  proof (cases "length ?t < length (rest s)")
    case True
    with g gd have "s' = s\<lparr>pos := pos s + length ?t + 1\<rparr>"
      by (auto simp: getline_def Let_def)
    with True show ?thesis
      by (simp add: rest_def)
  next
    case False
    with g gd have s': "s' = s\<lparr>pos := pos s + length ?t, eofbit := True, failbit := (?t = [])\<rparr>"
      by (auto simp: getline_def Let_def)
    with nf have "?t \<noteq> []"
      by simp
    then have p: "0 < length ?t"
      by simp
    from s' have "pos s' = pos s + length ?t" and "content s' = content s"
      by simp_all
    moreover from le have "length ?t \<le> length (content s) - pos s"
      by (simp add: rest_def)
    ultimately show ?thesis
      using p by arith
  qed
  then show "((d, s'), (d, s)) \<in> measure (\<lambda>(d, s). length (content s) - pos s)"
    by simp
qed

declare tokens_from.simps [simp del]

definition tokens :: "char \<Rightarrow> string \<Rightarrow> string list" where
  "tokens d line = tokens_from d (open_stream line)"

section \<open>Errors and numeric conversion\<close>

text \<open>
  The exceptions the readers can raise, and the process exit of the constructors
  (\<^verbatim>\<open>std::exit(EXIT_FAILURE)\<close>), as values.
\<close>

datatype error = Invalid_Argument | Out_Of_Range | Read_Wkt_Exception | Exit_Failure

text \<open>
  \<^verbatim>\<open>std::stoi(str)\<close>, base 10: leading white space is skipped, an optional sign is read,
  then the longest run of decimal digits; what follows is ignored. No digit raises
  \<^verbatim>\<open>std::invalid_argument\<close>, a value outside the range of \<^verbatim>\<open>int\<close> (32 bits) raises
  \<^verbatim>\<open>std::out_of_range\<close>.
\<close>

definition isspace :: "char \<Rightarrow> bool" where
  "isspace c \<longleftrightarrow> c \<in> set [CHR 0x20, CHR 0x09, CHR 0x0A, CHR 0x0B, CHR 0x0C, CHR 0x0D]"

definition isdigit :: "char \<Rightarrow> bool" where
  "isdigit c \<longleftrightarrow> c \<in> set ''0123456789''"

fun digits_value :: "int \<Rightarrow> string \<Rightarrow> int" where
  "digits_value acc [] = acc"
| "digits_value acc (c # cs) = digits_value (10 * acc + (of_char c - 48)) cs"

definition stoi :: "string \<Rightarrow> error + int" where
  "stoi str =
     (let t = dropWhile isspace str;
          neg = (case t of [] \<Rightarrow> False | c # _ \<Rightarrow> c = CHR ''-'');
          u = (case t of [] \<Rightarrow> [] | c # cs \<Rightarrow> if c = CHR ''-'' \<or> c = CHR ''+'' then cs else t);
          ds = takeWhile isdigit u;
          v = (if neg then - digits_value 0 ds else digits_value 0 ds)
      in if ds = [] then Inl Invalid_Argument
         else if v < - 2147483648 \<or> 2147483647 < v then Inl Out_Of_Range
         else Inr v)"

section \<open>Trajectories\<close>

text \<open>
  \<^verbatim>\<open>Trajectory{id, geom}\<close> and \<^verbatim>\<open>TemporalTrajectory{id, geom, timestamps}\<close>. A
  \<^verbatim>\<open>LineString\<close> is the list of its points, \<^verbatim>\<open>add_point\<close> appends. The type \<open>'c\<close> stands
  for \<^verbatim>\<open>double\<close>; the conversions \<^verbatim>\<open>std::stof\<close> and \<^verbatim>\<open>boost::geometry::read_wkt\<close> are
  parameters of the readers below, with \<open>Inl\<close> for the exception they raise.
\<close>

record 'c Trajectory =
  tr_id :: int
  tr_geom :: "('c \<times> 'c) list"

record 'c TemporalTrajectory =
  tt_id :: int
  tt_geom :: "('c \<times> 'c) list"
  tt_timestamps :: "'c list"

section \<open>The reading contract: batch reads\<close>

text \<open>
  \<^verbatim>\<open>ITrajectoryReader::read_next_N_trajectories\<close> and \<^verbatim>\<open>read_all_trajectories\<close> are
  written once against the virtual \<^verbatim>\<open>has_next_feature\<close> and \<^verbatim>\<open>read_next_trajectory\<close>,
  here the parameters \<open>hn\<close> and \<open>rn\<close> over any reader state. An exception of
  \<^verbatim>\<open>read_next_trajectory\<close> leaves the loop; the trajectories collected so far are lost.
  The second loop has no bound of its own, so not returning is the value \<open>None\<close>.
\<close>

function read_next_N_loop ::
  "('s \<Rightarrow> bool \<times> 's) \<Rightarrow> ('s \<Rightarrow> (error + 't) \<times> 's) \<Rightarrow> int \<Rightarrow> int \<Rightarrow> 's \<Rightarrow> 't list
    \<Rightarrow> (error + 't list) \<times> 's" where
  "read_next_N_loop hn rn N i s trajectories =
     (if i < N then
        (case hn s of
           (b, s1) \<Rightarrow>
             if b then
               (case rn s1 of
                  (Inl e, s2) \<Rightarrow> (Inl e, s2)
                | (Inr t, s2) \<Rightarrow> read_next_N_loop hn rn N (i + 1) s2 (trajectories @ [t]))
             else (Inr trajectories, s1))
      else (Inr trajectories, s))"
  by pat_completeness auto
termination
  by (relation "measure (\<lambda>(hn, rn, N, i, s, ts). nat (N - i))") auto

declare read_next_N_loop.simps [simp del]

definition read_next_N_trajectories ::
  "('s \<Rightarrow> bool \<times> 's) \<Rightarrow> ('s \<Rightarrow> (error + 't) \<times> 's) \<Rightarrow> int \<Rightarrow> 's \<Rightarrow> (error + 't list) \<times> 's" where
  "read_next_N_trajectories hn rn N s = read_next_N_loop hn rn N 0 s []"

partial_function (option) read_all_loop ::
  "('s \<Rightarrow> bool \<times> 's) \<Rightarrow> ('s \<Rightarrow> (error + 't) \<times> 's) \<Rightarrow> 's \<Rightarrow> 't list
    \<Rightarrow> ((error + 't list) \<times> 's) option" where
  "read_all_loop hn rn s trajectories =
     (case hn s of
        (b, s1) \<Rightarrow>
          if b then
            (case rn s1 of
               (Inl e, s2) \<Rightarrow> Some (Inl e, s2)
             | (Inr t, s2) \<Rightarrow> read_all_loop hn rn s2 (trajectories @ [t]))
          else Some (Inr trajectories, s1))"

declare read_all_loop.simps [code]

definition read_all_trajectories ::
  "('s \<Rightarrow> bool \<times> 's) \<Rightarrow> ('s \<Rightarrow> (error + 't) \<times> 's) \<Rightarrow> 's \<Rightarrow> ((error + 't list) \<times> 's) option" where
  "read_all_trajectories hn rn s = read_all_loop hn rn s []"

section \<open>Whole-row reader\<close>

text \<open>
  \<^verbatim>\<open>CSVTrajectoryReader\<close>: one line of the file is one trajectory. The names of its
  operations carry the prefix \<open>row\<close>; the unprefixed names are those of the point
  reader below. The delimiter and the initial value \<open>-1\<close> of the column indices come
  from the class declaration, which is not part of the source file: the delimiter is a
  parameter, and \<open>-1\<close> is what the tests \<^verbatim>\<open>id_idx<0\<close> and \<^verbatim>\<open>time_idx!=-1\<close> rely on.
\<close>

abbreviation newline :: char where
  "newline \<equiv> CHR 0x0A"

record row_reader =
  row_ifs :: istream
  row_delim :: char
  row_id_idx :: int
  row_geom_idx :: int

fun row_header_loop :: "string \<Rightarrow> string \<Rightarrow> string list \<Rightarrow> int \<Rightarrow> int \<times> int \<Rightarrow> int \<times> int" where
  "row_header_loop id_name geom_name [] i idxs = idxs"
| "row_header_loop id_name geom_name (intermediate # toks) i (id_i, geom_i) =
     row_header_loop id_name geom_name toks (i + 1)
       (if intermediate = id_name then i else id_i,
        if intermediate = geom_name then i else geom_i)"

definition CSVTrajectoryReader :: "string \<Rightarrow> char \<Rightarrow> string \<Rightarrow> string \<Rightarrow> error + row_reader" where
  "CSVTrajectoryReader file d id_name geom_name =
     (case getline newline (open_stream file) of
        (l, s) \<Rightarrow>
          (case row_header_loop id_name geom_name
                  (tokens d (case l of None \<Rightarrow> [] | Some str \<Rightarrow> str)) 0 (- 1, - 1) of
             (id_i, geom_i) \<Rightarrow>
               if id_i < 0 \<or> geom_i < 0 then Inl Exit_Failure
               else Inr \<lparr>row_ifs = s, row_delim = d, row_id_idx = id_i, row_geom_idx = geom_i\<rparr>))"

fun row_fields ::
  "(string \<Rightarrow> error + ('c \<times> 'c) list) \<Rightarrow> row_reader \<Rightarrow> string list \<Rightarrow> int
    \<Rightarrow> int \<times> ('c \<times> 'c) list \<Rightarrow> error + int \<times> ('c \<times> 'c) list" where
  "row_fields read_wkt r [] index v = Inr v"
| "row_fields read_wkt r (intermediate # toks) index (trid, geom) =
     (case (if index = row_id_idx r then stoi intermediate else Inr trid) of
        Inl e \<Rightarrow> Inl e
      | Inr trid' \<Rightarrow>
          (case (if index = row_geom_idx r then read_wkt intermediate else Inr geom) of
             Inl e \<Rightarrow> Inl e
           | Inr geom' \<Rightarrow> row_fields read_wkt r toks (index + 1) (trid', geom')))"

definition row_read_next_trajectory ::
  "(string \<Rightarrow> error + ('c \<times> 'c) list) \<Rightarrow> row_reader \<Rightarrow> (error + 'c Trajectory) \<times> row_reader" where
  "row_read_next_trajectory read_wkt r =
     (case getline newline (row_ifs r) of
        (l, s) \<Rightarrow>
          (case row_fields read_wkt r
                  (tokens (row_delim r) (case l of None \<Rightarrow> [] | Some str \<Rightarrow> str)) 0 (0, []) of
             Inl e \<Rightarrow> (Inl e, r\<lparr>row_ifs := s\<rparr>)
           | Inr (trid, geom) \<Rightarrow> (Inr \<lparr>tr_id = trid, tr_geom = geom\<rparr>, r\<lparr>row_ifs := s\<rparr>)))"

definition row_has_next_feature :: "row_reader \<Rightarrow> bool \<times> row_reader" where
  "row_has_next_feature r = (case peek (row_ifs r) of (c, s) \<Rightarrow> (c \<noteq> None, r\<lparr>row_ifs := s\<rparr>))"

definition row_reset_cursor :: "row_reader \<Rightarrow> row_reader" where
  "row_reset_cursor r = r\<lparr>row_ifs := snd (getline newline (clear_seekg0 (row_ifs r)))\<rparr>"

section \<open>Point-stream reader\<close>

text \<open>
  \<^verbatim>\<open>CSVTemporalPointReader\<close>: one line of the file is one point; consecutive lines with
  the same identifier are assembled into one trajectory. \<open>prev_line\<close> is the member that
  carries the line read past the end of a trajectory over to the next call.
\<close>

record point_reader =
  ifs :: istream
  delim :: char
  id_idx :: int
  x_idx :: int
  y_idx :: int
  time_idx :: int
  prev_line :: string

fun point_header_loop ::
  "string \<Rightarrow> string \<Rightarrow> string \<Rightarrow> string \<Rightarrow> string list \<Rightarrow> int
    \<Rightarrow> int \<times> int \<times> int \<times> int \<Rightarrow> int \<times> int \<times> int \<times> int" where
  "point_header_loop id_name x_name y_name time_name [] i idxs = idxs"
| "point_header_loop id_name x_name y_name time_name (intermediate # toks) i
       (id_i, x_i, y_i, time_i) =
     point_header_loop id_name x_name y_name time_name toks (i + 1)
       (if intermediate = id_name then i else id_i,
        if intermediate = x_name then i else x_i,
        if intermediate = y_name then i else y_i,
        if intermediate = time_name then i else time_i)"

definition CSVTemporalPointReader ::
  "string \<Rightarrow> char \<Rightarrow> string \<Rightarrow> string \<Rightarrow> string \<Rightarrow> string \<Rightarrow> error + point_reader" where
  "CSVTemporalPointReader file d id_name x_name y_name time_name =
     (case getline newline (open_stream file) of
        (l, s) \<Rightarrow>
          (case point_header_loop id_name x_name y_name time_name
                  (tokens d (case l of None \<Rightarrow> [] | Some str \<Rightarrow> str)) 0 (- 1, - 1, - 1, - 1) of
             (id_i, x_i, y_i, time_i) \<Rightarrow>
               if id_i < 0 \<or> x_i < 0 \<or> y_i < 0 then Inl Exit_Failure
               else Inr \<lparr>ifs = s, delim = d, id_idx = id_i, x_idx = x_i, y_idx = y_i,
                          time_idx = time_i, prev_line = []\<rparr>))"

definition has_next_feature :: "point_reader \<Rightarrow> bool \<times> point_reader" where
  "has_next_feature r = (case peek (ifs r) of (c, s) \<Rightarrow> (c \<noteq> None, r\<lparr>ifs := s\<rparr>))"

definition has_time_stamp :: "point_reader \<Rightarrow> bool" where
  "has_time_stamp r \<longleftrightarrow> time_idx r \<noteq> - 1"

definition reset_cursor :: "point_reader \<Rightarrow> point_reader" where
  "reset_cursor r = r\<lparr>ifs := snd (getline newline (clear_seekg0 (ifs r)))\<rparr>"

text \<open>
  The first statement of both assembling loops: the next line is the carried-over one
  when there is one, and is read from the file otherwise. \<open>line\<close> is declared outside
  the loop, so it keeps its value if \<^verbatim>\<open>std::getline\<close> does not assign it.
\<close>

definition next_line :: "point_reader \<Rightarrow> string \<Rightarrow> string \<times> point_reader" where
  "next_line r line =
     (if prev_line r = [] then
        (case getline newline (ifs r) of
           (l, s) \<Rightarrow> (case l of None \<Rightarrow> line | Some str \<Rightarrow> str, r\<lparr>ifs := s\<rparr>))
      else (prev_line r, r\<lparr>prev_line := []\<rparr>))"

text \<open>The inner loop of \<^verbatim>\<open>read_next_trajectory\<close> over the fields of one line.\<close>

fun point_fields ::
  "(string \<Rightarrow> error + 'c) \<Rightarrow> point_reader \<Rightarrow> string list \<Rightarrow> int
    \<Rightarrow> int \<times> 'c \<times> 'c \<Rightarrow> error + int \<times> 'c \<times> 'c" where
  "point_fields stof r [] index v = Inr v"
| "point_fields stof r (intermediate # toks) index (rid, x, y) =
     (case (if index = id_idx r then stoi intermediate else Inr rid) of
        Inl e \<Rightarrow> Inl e
      | Inr rid' \<Rightarrow>
          (case (if index = x_idx r then stof intermediate else Inr x) of
             Inl e \<Rightarrow> Inl e
           | Inr x' \<Rightarrow>
               (case (if index = y_idx r then stof intermediate else Inr y) of
                  Inl e \<Rightarrow> Inl e
                | Inr y' \<Rightarrow> point_fields stof r toks (index + 1) (rid', x', y'))))"

text \<open>The inner loop of \<^verbatim>\<open>read_next_temporal_trajectory\<close>, which also reads the time.\<close>

fun temporal_point_fields ::
  "(string \<Rightarrow> error + 'c) \<Rightarrow> point_reader \<Rightarrow> string list \<Rightarrow> int
    \<Rightarrow> int \<times> 'c \<times> 'c \<times> 'c \<Rightarrow> error + int \<times> 'c \<times> 'c \<times> 'c" where
  "temporal_point_fields stof r [] index v = Inr v"
| "temporal_point_fields stof r (intermediate # toks) index (rid, x, y, timestamp) =
     (case (if index = id_idx r then stoi intermediate else Inr rid) of
        Inl e \<Rightarrow> Inl e
      | Inr rid' \<Rightarrow>
          (case (if index = x_idx r then stof intermediate else Inr x) of
             Inl e \<Rightarrow> Inl e
           | Inr x' \<Rightarrow>
               (case (if index = y_idx r then stof intermediate else Inr y) of
                  Inl e \<Rightarrow> Inl e
                | Inr y' \<Rightarrow>
                    (case (if index = time_idx r then stof intermediate else Inr timestamp) of
                       Inl e \<Rightarrow> Inl e
                     | Inr timestamp' \<Rightarrow>
                         temporal_point_fields stof r toks (index + 1)
                           (rid', x', y', timestamp')))))"

text \<open>
  The assembling loop of \<^verbatim>\<open>read_next_trajectory\<close>,
  \<^verbatim>\<open>while (on_same_trajectory && has_next_feature()) { ... }\<close>, over the reader and the
  local variables of the call; it returns \<^verbatim>\<open>prev_id\<close> and \<^verbatim>\<open>geom\<close> as they are when the
  loop ends. An exception of \<^verbatim>\<open>std::stoi\<close> or \<^verbatim>\<open>std::stof\<close> leaves the call with the
  reader as it is at that moment.
\<close>

function read_loop ::
  "(string \<Rightarrow> error + 'c) \<Rightarrow> point_reader \<Rightarrow> bool \<Rightarrow> bool \<Rightarrow> int \<Rightarrow> ('c \<times> 'c) list \<Rightarrow> string
    \<Rightarrow> (error + int \<times> ('c::zero \<times> 'c) list) \<times> point_reader" where
  "read_loop stof r on_same_trajectory first_observation prev_id geom line =
     (if on_same_trajectory then
        (case has_next_feature r of
           (b, r1) \<Rightarrow>
             if b then
               (case next_line r1 line of
                  (line', r2) \<Rightarrow>
                    (case point_fields stof r2 (tokens (delim r2) line') 0 (0, 0, 0) of
                       Inl e \<Rightarrow> (Inl e, r2)
                     | Inr (rid, x, y) \<Rightarrow>
                         (let geom' = (if prev_id = rid \<or> first_observation
                                       then geom @ [(x, y)] else geom);
                              on_same' = (if prev_id \<noteq> rid \<and> \<not> first_observation
                                          then False else on_same_trajectory)
                          in read_loop stof
                               (if \<not> on_same' then r2\<lparr>prev_line := line'\<rparr> else r2)
                               on_same' False rid geom' line')))
             else (Inr (prev_id, geom), r1))
      else (Inr (prev_id, geom), r))"
  by pat_completeness auto
termination
proof (relation "measure (\<lambda>(stof, r, on_same, first, prev_id, geom, line).
    if on_same
    then 2 * (length (content (ifs r)) - pos (ifs r)) + (if prev_line r = [] then 1 else 2)
    else 0)", goal_cases)
  case 1
  show ?case
    by simp
next
  case (2 stof r on_same first prev_id geom line b r1 line' r2 v rid yv x y geom' on_same')
  from 2(2,3) have r1: "r1 = r" and gd: "good (ifs r)" and rne: "rest (ifs r) \<noteq> []"
    by (auto simp: has_next_feature_def peek_def split: if_splits list.splits)
  then have ne: "pos (ifs r) < length (content (ifs r))"
    by (simp add: rest_def)
  from rne have rl: "0 < length (rest (ifs r))"
    by simp
  have "prev_line r2 = [] \<and> content (ifs r2) = content (ifs r)
      \<and> (if prev_line r = [] then pos (ifs r) < pos (ifs r2) else pos (ifs r2) = pos (ifs r))"
    using 2(4) r1 gd rl
    by (auto simp: next_line_def getline_def Let_def split: if_splits)
  with ne 2(1) show ?case
    by (auto split: if_splits)
qed

declare read_loop.simps [simp del]

definition read_next_trajectory ::
  "(string \<Rightarrow> error + 'c) \<Rightarrow> point_reader \<Rightarrow> (error + ('c::zero) Trajectory) \<times> point_reader" where
  "read_next_trajectory stof r =
     (case read_loop stof r True True (- 1) [] [] of
        (Inl e, r') \<Rightarrow> (Inl e, r')
      | (Inr (prev_id, geom), r') \<Rightarrow> (Inr \<lparr>tr_id = prev_id, tr_geom = geom\<rparr>, r'))"

text \<open>
  The assembling loop of \<^verbatim>\<open>read_next_temporal_trajectory\<close>: the same loop, which also
  collects the time of every point it adds when the reader has a time column. (Its
  local \<^verbatim>\<open>prev_timestamp\<close> is never read and is left out.)
\<close>

function temporal_read_loop ::
  "(string \<Rightarrow> error + 'c) \<Rightarrow> point_reader \<Rightarrow> bool \<Rightarrow> bool \<Rightarrow> int \<Rightarrow> ('c \<times> 'c) list \<Rightarrow> 'c list
    \<Rightarrow> string \<Rightarrow> (error + int \<times> ('c::zero \<times> 'c) list \<times> 'c list) \<times> point_reader" where
  "temporal_read_loop stof r on_same_trajectory first_observation prev_id geom timestamps line =
     (if on_same_trajectory then
        (case has_next_feature r of
           (b, r1) \<Rightarrow>
             if b then
               (case next_line r1 line of
                  (line', r2) \<Rightarrow>
                    (case temporal_point_fields stof r2 (tokens (delim r2) line') 0 (0, 0, 0, 0) of
                       Inl e \<Rightarrow> (Inl e, r2)
                     | Inr (rid, x, y, timestamp) \<Rightarrow>
                         (let geom' = (if prev_id = rid \<or> first_observation
                                       then geom @ [(x, y)] else geom);
                              timestamps' = (if (prev_id = rid \<or> first_observation)
                                                \<and> has_time_stamp r2
                                             then timestamps @ [timestamp] else timestamps);
                              on_same' = (if prev_id \<noteq> rid \<and> \<not> first_observation
                                          then False else on_same_trajectory)
                          in temporal_read_loop stof
                               (if \<not> on_same' then r2\<lparr>prev_line := line'\<rparr> else r2)
                               on_same' False rid geom' timestamps' line')))
             else (Inr (prev_id, geom, timestamps), r1))
      else (Inr (prev_id, geom, timestamps), r))"
  by pat_completeness auto
termination
proof (relation "measure (\<lambda>(stof, r, on_same, first, prev_id, geom, timestamps, line).
    if on_same
    then 2 * (length (content (ifs r)) - pos (ifs r)) + (if prev_line r = [] then 1 else 2)
    else 0)", goal_cases)
  case 1
  show ?case
    by simp
next
  case (2 stof r on_same first prev_id geom timestamps line b r1 line' r2 v rid yv x zv y tv
      geom' timestamps' on_same')
  from 2(2,3) have r1: "r1 = r" and gd: "good (ifs r)" and rne: "rest (ifs r) \<noteq> []"
    by (auto simp: has_next_feature_def peek_def split: if_splits list.splits)
  then have ne: "pos (ifs r) < length (content (ifs r))"
    by (simp add: rest_def)
  from rne have rl: "0 < length (rest (ifs r))"
    by simp
  have "prev_line r2 = [] \<and> content (ifs r2) = content (ifs r)
      \<and> (if prev_line r = [] then pos (ifs r) < pos (ifs r2) else pos (ifs r2) = pos (ifs r))"
    using 2(4) r1 gd rl
    by (auto simp: next_line_def getline_def Let_def split: if_splits)
  with ne 2(1) show ?case
    by (auto split: if_splits)
qed

declare temporal_read_loop.simps [simp del]

definition read_next_temporal_trajectory ::
  "(string \<Rightarrow> error + 'c) \<Rightarrow> point_reader
    \<Rightarrow> (error + ('c::zero) TemporalTrajectory) \<times> point_reader" where
  "read_next_temporal_trajectory stof r =
     (case temporal_read_loop stof r True True (- 1) [] [] [] of
        (Inl e, r') \<Rightarrow> (Inl e, r')
      | (Inr (prev_id, geom, timestamps), r') \<Rightarrow>
          (Inr \<lparr>tt_id = prev_id, tt_geom = geom, tt_timestamps = timestamps\<rparr>, r'))"

section \<open>The fields of a line, as specified\<close>

text \<open>
  The specification's reading of a line: the strings between the occurrences of the
  delimiter, in order, as they stand. A line with \<open>k\<close> delimiters has \<open>k + 1\<close> fields,
  so a line that ends in the delimiter has an empty last field and the empty line has
  one empty field. This definition follows the specification, not the source; it is
  what \<open>tokens\<close> is compared with.
\<close>

fun fields_between :: "char \<Rightarrow> string \<Rightarrow> string list" where
  "fields_between d [] = [[]]"
| "fields_between d (c # cs) =
     (if c = d then [] # fields_between d cs
      else (case fields_between d cs of
              [] \<Rightarrow> [[c]]
            | f # fs \<Rightarrow> (c # f) # fs))"

section \<open>The index of one role\<close>

text \<open>
  What one role's index is after the header loop, taken on its own: every token equal
  to the role's name overwrites the index, so the last one stays.
\<close>

fun role_loop :: "string \<Rightarrow> string list \<Rightarrow> int \<Rightarrow> int \<Rightarrow> int" where
  "role_loop name [] i idx = idx"
| "role_loop name (intermediate # toks) i idx =
     role_loop name toks (i + 1) (if intermediate = name then i else idx)"

section \<open>What a point reader has left to read\<close>

text \<open>
  A measure of the input a point reader has not consumed yet: the characters of the file
  after the read position, counted twice, and the carried-over line. Every
  \<^verbatim>\<open>read_next_trajectory\<close> made while \<^verbatim>\<open>has_next_feature()\<close> holds makes it smaller, which
  is why draining a point reader returns.
\<close>

definition unread :: "point_reader \<Rightarrow> nat" where
  "unread r =
     2 * (length (content (ifs r)) - pos (ifs r)) + (if prev_line r = [] then 0 else 1)"

section \<open>Example readers\<close>

text \<open>
  The readers the examples below are about, as records. The fields of the example files
  are decimal integers, and the examples pass \<open>stoi\<close> for the conversion of the
  coordinates as well: on such fields \<^verbatim>\<open>std::stof\<close> and \<^verbatim>\<open>std::stoi\<close> give the same number,
  and both fail on the field \<^verbatim>\<open>abc\<close> of the malformed examples.
\<close>

text \<open>
  The point reader over the file \<^verbatim>\<open>id,x,y / 1,0,0\<close> after its one trajectory has been
  read, and the whole-row reader over \<^verbatim>\<open>id,geom / 7,LINESTRING(0 0)\<close> after its one
  trajectory has been read and \<^verbatim>\<open>has_next_feature\<close> has been called.
\<close>

definition drained_point_reader :: point_reader where
  "drained_point_reader =
     \<lparr>ifs = \<lparr>content = ''id,x,y\<newline>1,0,0\<newline>'', pos = 13, eofbit = True, failbit = False\<rparr>,
      delim = CHR '','', id_idx = 0, x_idx = 1, y_idx = 2, time_idx = - 1, prev_line = []\<rparr>"

definition drained_row_reader :: row_reader where
  "drained_row_reader =
     \<lparr>row_ifs = \<lparr>content = ''id,geom\<newline>7,LINESTRING(0 0)\<newline>'', pos = 26,
                 eofbit = True, failbit = False\<rparr>,
      row_delim = CHR '','', row_id_idx = 0, row_geom_idx = 1\<rparr>"





text \<open>
  The point reader over the file \<^verbatim>\<open>id,x,y / 1,0,0 / 1,1,1 / 2,5,5\<close> and the point
  reader over the file \<^verbatim>\<open>id,x,y,t / 1,0,0,10 / 1,1,1,20 / 2,5,5,30\<close>, as their constructor
  leaves them when the columns are looked up under the names \<^verbatim>\<open>id\<close>, \<^verbatim>\<open>x\<close>, \<^verbatim>\<open>y\<close>
  and \<^verbatim>\<open>t\<close>: the first has no time column.
\<close>

definition example_point_reader :: point_reader where
  "example_point_reader =
     \<lparr>ifs = \<lparr>content = ''id,x,y\<newline>1,0,0\<newline>1,1,1\<newline>2,5,5\<newline>'', pos = 7, eofbit = False,
             failbit = False\<rparr>,
      delim = CHR '','', id_idx = 0, x_idx = 1, y_idx = 2, time_idx = - 1, prev_line = []\<rparr>"

definition timed_point_reader :: point_reader where
  "timed_point_reader =
     \<lparr>ifs = \<lparr>content = ''id,x,y,t\<newline>1,0,0,10\<newline>1,1,1,20\<newline>2,5,5,30\<newline>'', pos = 9,
             eofbit = False, failbit = False\<rparr>,
      delim = CHR '','', id_idx = 0, x_idx = 1, y_idx = 2, time_idx = 3, prev_line = []\<rparr>"

text \<open>
  The point reader over the file \<^verbatim>\<open>id,x,y / 1,0,0 / 2,5,5 / 2,6,6 / 3,1,1 / 3,2,2\<close>, as
  its constructor leaves it.
\<close>

definition three_run_point_reader :: point_reader where
  "three_run_point_reader =
     \<lparr>ifs = \<lparr>content = ''id,x,y\<newline>1,0,0\<newline>2,5,5\<newline>2,6,6\<newline>3,1,1\<newline>3,2,2\<newline>'', pos = 7,
             eofbit = False, failbit = False\<rparr>,
      delim = CHR '','', id_idx = 0, x_idx = 1, y_idx = 2, time_idx = - 1, prev_line = []\<rparr>"

section \<open>Properties of the tokenizer\<close>

lemma fields_between_nonempty: "fields_between d xs \<noteq> []"
  by (induction xs) (auto split: list.splits)

lemma fields_between_no_delim:
  "d \<notin> set xs \<Longrightarrow> fields_between d xs = [xs]"
  by (induction xs) auto

lemma fields_between_split:
  "d \<notin> set tok \<Longrightarrow> fields_between d (tok @ d # ys) = tok # fields_between d ys"
  by (induction tok) auto

lemma tokens_from_not_good: "\<not> good s \<Longrightarrow> tokens_from d s = []"
  by (simp add: tokens_from.simps getline_def)

lemma split_at_delim:
  "length (takeWhile (\<lambda>c. c \<noteq> d) xs) < length xs \<Longrightarrow>
   xs = takeWhile (\<lambda>c. c \<noteq> d) xs @ d # drop (length (takeWhile (\<lambda>c. c \<noteq> d) xs) + 1) xs"
  by (induction xs) auto

lemma takeWhile_all:
  "\<not> length (takeWhile P xs) < length xs \<Longrightarrow> takeWhile P xs = xs"
  by (induction xs) (auto split: if_splits)

lemma tokens_from_fields:
  "good s \<Longrightarrow> tokens_from d s =
     (if last (fields_between d (rest s)) = [] then butlast (fields_between d (rest s))
      else fields_between d (rest s))"
proof (induction d s rule: tokens_from.induct)
  case (1 d s)
  let ?xs = "rest s"
  let ?tok = "takeWhile (\<lambda>c. c \<noteq> d) ?xs"
  have nd: "d \<notin> set ?tok"
    by (auto dest: set_takeWhileD)
  show ?case
  proof (cases "length ?tok < length ?xs")
    case True
    define s' where "s' = s\<lparr>pos := pos s + length ?tok + 1\<rparr>"
    define ys where "ys = drop (length ?tok + 1) ?xs"
    from True 1(2) have g: "getline d s = (Some ?tok, s')"
      by (simp add: getline_def Let_def s'_def)
    have gs': "good s'"
      using 1(2) by (simp add: good_def s'_def)
    then have nf: "\<not> failbit s'"
      by (simp add: good_def)
    have rs': "rest s' = ys"
      by (simp add: rest_def s'_def ys_def add.commute add.left_commute)
    from True have xs: "?xs = ?tok @ d # ys"
      unfolding ys_def by (rule split_at_delim)
    have "fields_between d ?xs = fields_between d (?tok @ d # ys)"
      using xs by simp
    also have "\<dots> = ?tok # fields_between d ys"
      using nd by (rule fields_between_split)
    finally have f: "fields_between d ?xs = ?tok # fields_between d ys" .
    have ih: "tokens_from d s' =
        (if last (fields_between d ys) = [] then butlast (fields_between d ys)
         else fields_between d ys)"
      using "1.IH" [OF g [symmetric] refl nf gs'] rs' by simp
    have "tokens_from d s = ?tok # tokens_from d s'"
      using g nf by (simp add: tokens_from.simps [of d s])
    with ih f show ?thesis
      by (simp add: fields_between_nonempty)
  next
    case False
    then have t: "?tok = ?xs"
      by (rule takeWhile_all)
    define s' where "s' = s\<lparr>pos := pos s + length ?tok, eofbit := True, failbit := (?tok = [])\<rparr>"
    from False 1(2) have g: "getline d s = (Some ?tok, s')"
      by (simp add: getline_def Let_def s'_def)
    have ng: "\<not> good s'"
      by (simp add: good_def s'_def)
    have f: "fields_between d ?xs = [?xs]"
      using nd t by (metis fields_between_no_delim)
    show ?thesis
    proof (cases "?xs = []")
      case True
      with t have "failbit s'"
        by (simp add: s'_def)
      with g have "tokens_from d s = []"
        by (simp add: tokens_from.simps [of d s])
      with f True show ?thesis
        by simp
    next
      case False
      have "?tok \<noteq> []"
        unfolding t by (rule False)
      then have "\<not> failbit s'"
        by (simp add: s'_def)
      with g have "tokens_from d s = [?tok]"
        using tokens_from_not_good [OF ng] by (simp add: tokens_from.simps [of d s])
      with f t False show ?thesis
        by simp
    qed
  qed
qed

text \<open>
  C8 (as amended). For every line and delimiter the tokenizer yields the fields between
  the occurrences of the delimiter, in order and untrimmed, with no quoting: a quote is
  a character like any other. One field is not kept: an empty last field. A line that
  ends in the delimiter yields no final empty field, and the empty line yields no field.
\<close>

theorem tokens_fields_but_empty_last:
  "tokens d line =
     (if last (fields_between d line) = [] then butlast (fields_between d line)
      else fields_between d line)"
  using tokens_from_fields [of "open_stream line" d]
  by (simp add: tokens_def open_stream_def good_def rest_def)

theorem tokens_fields_but_empty_last_witness:
  "tokens (CHR '','') ''7, LINESTRING(0 0),,''
     = butlast (fields_between (CHR '','') ''7, LINESTRING(0 0),,'')
   \<and> tokens (CHR '','') ''7, LINESTRING(0 0),,'' = [''7'', '' LINESTRING(0 0)'', '''']"
  using tokens_fields_but_empty_last [of "CHR '',''" "''7, LINESTRING(0 0),,''"]
  by simp

text \<open>
  C8 (as stated) fails: the line \<^verbatim>\<open>a,b,\<close> ends in the delimiter and has the three fields
  \<^verbatim>\<open>a\<close>, \<^verbatim>\<open>b\<close> and the empty string, but the tokenizer yields only the first two.
\<close>

theorem tokens_trailing_empty_counterexample:
  "tokens (CHR '','') ''a,b,'' = [''a'', ''b'']
   \<and> fields_between (CHR '','') ''a,b,'' = [''a'', ''b'', '''']"
  by code_simp

section \<open>Properties of the schema resolver\<close>

lemma point_header_loop_roles:
  "point_header_loop id_name x_name y_name time_name toks i (a, b, c, t) =
     (role_loop id_name toks i a, role_loop x_name toks i b,
      role_loop y_name toks i c, role_loop time_name toks i t)"
  by (induction toks arbitrary: i a b c t) simp_all

lemma row_header_loop_roles:
  "row_header_loop id_name geom_name toks i (a, g) =
     (role_loop id_name toks i a, role_loop geom_name toks i g)"
  by (induction toks arbitrary: i a g) simp_all

lemma role_loop_absent: "name \<notin> set toks \<Longrightarrow> role_loop name toks i idx = idx"
  by (induction toks arbitrary: i idx) auto

lemma role_loop_last:
  "k < length toks \<Longrightarrow> toks ! k = name \<Longrightarrow>
   (\<forall>j. k < j \<and> j < length toks \<longrightarrow> toks ! j \<noteq> name) \<Longrightarrow>
   role_loop name toks i idx = i + int k"
proof (induction toks arbitrary: i idx k)
  case Nil
  then show ?case by simp
next
  case (Cons tok toks)
  show ?case
  proof (cases k)
    case 0
    with Cons.prems have tok: "tok = name"
      by simp
    have "name \<notin> set toks"
    proof
      assume "name \<in> set toks"
      then obtain j where "j < length toks" and "toks ! j = name"
        by (auto simp: in_set_conv_nth)
      with Cons.prems(3) [rule_format, of "Suc j"] 0 show False
        by simp
    qed
    with tok 0 show ?thesis
      by (simp add: role_loop_absent)
  next
    case (Suc k')
    from Cons.prems Suc have 1: "k' < length toks" and 2: "toks ! k' = name"
      by simp_all
    have 3: "\<forall>j. k' < j \<and> j < length toks \<longrightarrow> toks ! j \<noteq> name"
    proof (intro allI impI)
      fix j
      assume "k' < j \<and> j < length toks"
      with Cons.prems(3) [rule_format, of "Suc j"] Suc show "toks ! j \<noteq> name"
        by simp
    qed
    from Cons.IH [OF 1 2 3] Suc show ?thesis
      by simp
  qed
qed

text \<open>
  C3 (as amended). When a header holds a role's column name more than once, both
  constructors map the role to the index of the LAST header token equal to the name
  (the comparison is the case-sensitive equality of strings): \<open>k\<close> below is the place
  of a token equal to \<open>name\<close> with no such token after it, and every role that is looked
  up under \<open>name\<close> gets the index \<open>k\<close>.
\<close>

theorem header_last_match_wins:
  assumes "ts = tokens d (case fst (getline newline (open_stream file)) of
                            None \<Rightarrow> [] | Some str \<Rightarrow> str)"
    and "k < length ts" and "ts ! k = name"
    and "\<forall>j. k < j \<and> j < length ts \<longrightarrow> ts ! j \<noteq> name"
  shows "(case CSVTemporalPointReader file d id_name x_name y_name time_name of
            Inl e \<Rightarrow> True
          | Inr r \<Rightarrow>
              (id_name = name \<longrightarrow> id_idx r = int k) \<and> (x_name = name \<longrightarrow> x_idx r = int k) \<and>
              (y_name = name \<longrightarrow> y_idx r = int k) \<and> (time_name = name \<longrightarrow> time_idx r = int k))
       \<and> (case CSVTrajectoryReader file d id_name geom_name of
            Inl e \<Rightarrow> True
          | Inr r \<Rightarrow>
              (id_name = name \<longrightarrow> row_id_idx r = int k) \<and>
              (geom_name = name \<longrightarrow> row_geom_idx r = int k))"
proof -
  have l: "role_loop name ts 0 idx = int k" for idx
    using role_loop_last [OF assms(2,3,4), of 0 idx] by simp
  show ?thesis
    using l assms(1)
    by (auto simp: CSVTemporalPointReader_def CSVTrajectoryReader_def
        point_header_loop_roles row_header_loop_roles split: prod.splits if_splits sum.splits)
qed

theorem header_last_match_wins_witness:
  "3 < length [''id'', ''x'', ''y'', ''id''] \<and> [''id'', ''x'', ''y'', ''id''] ! 3 = ''id''
   \<and> ''id'' \<notin> set (drop 4 [''id'', ''x'', ''y'', ''id''])
   \<and> (case CSVTemporalPointReader ''id,x,y,id\<newline>1,0,0,7\<newline>'' (CHR '','') ''id'' ''x'' ''y'' ''t'' of
         Inl e \<Rightarrow> False
       | Inr r \<Rightarrow> id_idx r = 3)"
proof -
  let ?ts = "[''id'', ''x'', ''y'', ''id'']"
  let ?file = "''id,x,y,id\<newline>1,0,0,7\<newline>''"
  have 1: "?ts = tokens (CHR '','') (case fst (getline newline (open_stream ?file)) of
                                       None \<Rightarrow> [] | Some str \<Rightarrow> str)"
    by code_simp
  have 2: "3 < length ?ts" and 3: "?ts ! 3 = ''id''"
    by simp_all
  have 4: "\<forall>j. 3 < j \<and> j < length ?ts \<longrightarrow> ?ts ! j \<noteq> ''id''"
    by simp
  have 5: "\<not> isl (CSVTemporalPointReader ?file (CHR '','') ''id'' ''x'' ''y'' ''t'')"
    by code_simp
  show ?thesis
    using header_last_match_wins [OF 1 2 3 4, of "''id''" "''x''" "''y''" "''t''" "''geom''"] 5
    by (simp split: sum.splits)
qed

text \<open>
  C3 (as stated) fails: in the header \<^verbatim>\<open>id,x,y,id\<close> the name \<^verbatim>\<open>id\<close> is the first and the
  fourth token; the point reader resolves the identifier to index 3 and the whole-row
  reader, for the header \<^verbatim>\<open>id,geom,id\<close>, to index 2, not to index 0.
\<close>

theorem header_first_match_counterexample:
  "map_sum (\<lambda>e. e) id_idx
     (CSVTemporalPointReader ''id,x,y,id\<newline>1,0,0,7\<newline>'' (CHR '','') ''id'' ''x'' ''y'' ''t'') = Inr 3
   \<and> map_sum (\<lambda>e. e) row_id_idx
     (CSVTrajectoryReader ''id,geom,id\<newline>'' (CHR '','') ''id'' ''geom'') = Inr 2"
  by code_simp

section \<open>Reading from an exhausted reader\<close>

lemma tokens_empty: "tokens d [] = []"
  by (simp add: tokens_def tokens_from.simps open_stream_def getline_def good_def rest_def)

lemma peek_None_getline:
  "fst (peek s) = None \<Longrightarrow>
   (case fst (getline d s) of None \<Rightarrow> [] | Some str \<Rightarrow> str) = []"
  by (auto simp: peek_def getline_def Let_def split: if_splits list.splits)

lemma peek_None_not_good: "fst (peek s) = None \<Longrightarrow> \<not> good (snd (peek s))"
  by (auto simp: peek_def good_def split: if_splits list.splits)

lemma peek_not_good: "\<not> good s \<Longrightarrow> fst (peek s) = None"
  by (simp add: peek_def)

lemma fst_has_next_feature: "fst (has_next_feature r) \<longleftrightarrow> fst (peek (ifs r)) \<noteq> None"
  by (simp add: has_next_feature_def split: prod.splits)

lemma ifs_has_next_feature: "ifs (snd (has_next_feature r)) = snd (peek (ifs r))"
  by (simp add: has_next_feature_def split: prod.splits)

lemma fst_row_has_next_feature:
  "fst (row_has_next_feature r) \<longleftrightarrow> fst (peek (row_ifs r)) \<noteq> None"
  by (simp add: row_has_next_feature_def split: prod.splits)

lemma row_ifs_has_next_feature: "row_ifs (snd (row_has_next_feature r)) = snd (peek (row_ifs r))"
  by (simp add: row_has_next_feature_def split: prod.splits)

lemma has_next_feature_False_again:
  assumes "\<not> fst (has_next_feature r)"
  shows "\<not> fst (has_next_feature (snd (has_next_feature r)))"
proof -
  from assms have "fst (peek (ifs r)) = None"
    by (simp add: fst_has_next_feature)
  then have "\<not> good (snd (peek (ifs r)))"
    by (rule peek_None_not_good)
  then have "fst (peek (snd (peek (ifs r)))) = None"
    by (rule peek_not_good)
  then show ?thesis
    by (simp add: fst_has_next_feature ifs_has_next_feature)
qed

lemma row_has_next_feature_False_again:
  assumes "\<not> fst (row_has_next_feature r)"
  shows "\<not> fst (row_has_next_feature (snd (row_has_next_feature r)))"
proof -
  from assms have "fst (peek (row_ifs r)) = None"
    by (simp add: fst_row_has_next_feature)
  then have "\<not> good (snd (peek (row_ifs r)))"
    by (rule peek_None_not_good)
  then have "fst (peek (snd (peek (row_ifs r)))) = None"
    by (rule peek_not_good)
  then show ?thesis
    by (simp add: fst_row_has_next_feature row_ifs_has_next_feature)
qed

lemma read_next_trajectory_exhausted:
  assumes "\<not> fst (has_next_feature r)"
  shows "read_next_trajectory stof r
           = (Inr \<lparr>tr_id = - 1, tr_geom = []\<rparr>, snd (has_next_feature r))"
proof -
  obtain b r1 where h: "has_next_feature r = (b, r1)"
    by (cases "has_next_feature r")
  with assms have "\<not> b"
    by simp
  with h have "read_loop stof r True True (- 1) [] [] = (Inr (- 1, []), r1)"
    by (simp add: read_loop.simps [of stof r])
  with h show ?thesis
    by (simp add: read_next_trajectory_def)
qed

lemma row_read_next_trajectory_exhausted:
  assumes "\<not> fst (row_has_next_feature r)"
  shows "fst (row_read_next_trajectory read_wkt r) = Inr \<lparr>tr_id = 0, tr_geom = []\<rparr>"
proof -
  from assms have "fst (peek (row_ifs r)) = None"
    by (simp add: fst_row_has_next_feature)
  then have e: "(case fst (getline newline (row_ifs r)) of None \<Rightarrow> [] | Some str \<Rightarrow> str) = []"
    by (rule peek_None_getline)
  obtain l s where g: "getline newline (row_ifs r) = (l, s)"
    by (cases "getline newline (row_ifs r)")
  with e have "(case l of None \<Rightarrow> [] | Some str \<Rightarrow> str) = []"
    by simp
  with g show ?thesis
    by (simp add: row_read_next_trajectory_def tokens_empty)
qed

text \<open>
  C6 (as amended). Calling \<^verbatim>\<open>read_next_trajectory\<close> when \<^verbatim>\<open>has_next_feature()\<close> is false
  raises no error in the readers of the source file; it returns a trajectory that is
  not in the input. The point reader returns the identifier \<open>-1\<close> with no point, the
  whole-row reader the identifier \<open>0\<close> with an empty geometry. This holds for the call
  made in the state the test was made in and for the call made after the test.
\<close>

theorem read_when_exhausted_returns_default:
  "(\<not> fst (has_next_feature r) \<longrightarrow>
      fst (read_next_trajectory stof r) = Inr \<lparr>tr_id = - 1, tr_geom = []\<rparr> \<and>
      fst (read_next_trajectory stof (snd (has_next_feature r)))
        = Inr \<lparr>tr_id = - 1, tr_geom = []\<rparr>)
   \<and> (\<not> fst (row_has_next_feature rr) \<longrightarrow>
      fst (row_read_next_trajectory read_wkt rr) = Inr \<lparr>tr_id = 0, tr_geom = []\<rparr> \<and>
      fst (row_read_next_trajectory read_wkt (snd (row_has_next_feature rr)))
        = Inr \<lparr>tr_id = 0, tr_geom = []\<rparr>)"
  using has_next_feature_False_again [of r] row_has_next_feature_False_again [of rr]
  by (simp add: read_next_trajectory_exhausted row_read_next_trajectory_exhausted)

theorem read_when_exhausted_returns_default_witness:
  "map_sum (\<lambda>e. e)
     (\<lambda>r. snd (row_has_next_feature
            (snd (row_read_next_trajectory (\<lambda>s. Inr [(0 :: int, 0 :: int)]) r))))
     (CSVTrajectoryReader ''id,geom\<newline>7,LINESTRING(0 0)\<newline>'' (CHR '','') ''id'' ''geom'')
     = Inr drained_row_reader
   \<and> \<not> fst (has_next_feature drained_point_reader)
   \<and> fst (read_next_trajectory stoi drained_point_reader) = Inr \<lparr>tr_id = - 1, tr_geom = []\<rparr>
   \<and> \<not> fst (row_has_next_feature drained_row_reader)
   \<and> fst (row_read_next_trajectory (\<lambda>s. Inr [(0 :: int, 0 :: int)]) drained_row_reader)
       = Inr \<lparr>tr_id = 0, tr_geom = []\<rparr>"
proof -
  have 1: "\<not> fst (has_next_feature drained_point_reader)"
    by code_simp
  have 2: "\<not> fst (row_has_next_feature drained_row_reader)"
    by code_simp
  have 3: "map_sum (\<lambda>e. e)
     (\<lambda>r. snd (row_has_next_feature
            (snd (row_read_next_trajectory (\<lambda>s. Inr [(0 :: int, 0 :: int)]) r))))
     (CSVTrajectoryReader ''id,geom\<newline>7,LINESTRING(0 0)\<newline>'' (CHR '','') ''id'' ''geom'')
     = Inr drained_row_reader"
    by code_simp
  show ?thesis
    using 1 2 3 read_when_exhausted_returns_default
      [of drained_point_reader stoi drained_row_reader "\<lambda>s. Inr [(0 :: int, 0 :: int)]"]
    by simp
qed

text \<open>
  C6 (as stated) fails: the point reader over the file \<^verbatim>\<open>id,x,y / 1,0,0\<close> yields its one
  trajectory, then \<^verbatim>\<open>has_next_feature()\<close> is false, and \<^verbatim>\<open>read_next_trajectory()\<close>
  called all the same returns a trajectory with identifier \<open>-1\<close> and no point: a value
  (\<open>Inr\<close>), not an error.
\<close>

theorem read_when_exhausted_counterexample:
  "map_sum (\<lambda>e. e) (read_next_trajectory stoi)
     (CSVTemporalPointReader ''id,x,y\<newline>1,0,0\<newline>'' (CHR '','') ''id'' ''x'' ''y'' ''t'')
     = Inr (Inr \<lparr>tr_id = 1, tr_geom = [(0, 0)]\<rparr>, drained_point_reader)
   \<and> fst (has_next_feature drained_point_reader) = False
   \<and> fst (read_next_trajectory stoi drained_point_reader) = Inr \<lparr>tr_id = - 1, tr_geom = []\<rparr>"
  by code_simp

section \<open>Lines with too few fields\<close>





section \<open>Malformed numeric fields\<close>






lemma has_next_feature_True:
  assumes "fst (has_next_feature r)"
  shows "has_next_feature r = (True, r)" and "good (ifs r)" and "rest (ifs r) \<noteq> []"
  using assms
  by (auto simp: has_next_feature_def peek_def split: if_splits list.splits)

lemma next_line_schema:
  assumes "next_line r line = (l, r2)"
  shows "delim r2 = delim r" and "id_idx r2 = id_idx r" and "x_idx r2 = x_idx r"
    and "y_idx r2 = y_idx r" and "time_idx r2 = time_idx r" and "prev_line r2 = []"
  using assms
  by (auto simp: next_line_def split: if_splits prod.splits)

lemma next_line_position:
  assumes "next_line r line = (l, r2)" and "good (ifs r)" and "rest (ifs r) \<noteq> []"
  shows "prev_line r = [] \<longrightarrow>
           l = takeWhile (\<lambda>c. c \<noteq> newline) (rest (ifs r)) \<and>
           rest (ifs r2) = drop (length l + 1) (rest (ifs r))"
    and "prev_line r \<noteq> [] \<longrightarrow> l = prev_line r \<and> ifs r2 = ifs r"
proof -
  let ?t = "takeWhile (\<lambda>c. c \<noteq> newline) (rest (ifs r))"
  show "prev_line r \<noteq> [] \<longrightarrow> l = prev_line r \<and> ifs r2 = ifs r"
    using assms(1) by (auto simp: next_line_def)
  show "prev_line r = [] \<longrightarrow> l = ?t \<and> rest (ifs r2) = drop (length l + 1) (rest (ifs r))"
  proof
    assume e: "prev_line r = []"
    show "l = ?t \<and> rest (ifs r2) = drop (length l + 1) (rest (ifs r))"
    proof (cases "length ?t < length (rest (ifs r))")
      case True
      with assms(1,2) e have "l = ?t" and "ifs r2 = (ifs r)\<lparr>pos := pos (ifs r) + length ?t + 1\<rparr>"
        by (auto simp: next_line_def getline_def Let_def)
      then show ?thesis
        by (simp add: rest_def add.commute)
      next
      case False
      with assms(1,2) e have l: "l = ?t"
        and "ifs r2 = (ifs r)\<lparr>pos := pos (ifs r) + length ?t, eofbit := True,
                                failbit := (?t = [])\<rparr>"
        by (auto simp: next_line_def getline_def Let_def)
      then have "rest (ifs r2) = drop (length ?t) (rest (ifs r))"
        by (simp add: rest_def add.commute)
      moreover from False have "length (rest (ifs r)) \<le> length ?t"
        by simp
      ultimately show ?thesis
        using l by simp
    qed
  qed
qed

text \<open>
  A line that ends in the delimiter: the loop over its fields gets the fields before
  that last delimiter, and never the empty field after it.
\<close>

lemma fields_between_snoc_delim: "fields_between d (l @ [d]) = fields_between d l @ [[]]"
  by (induction l) (auto simp: fields_between_nonempty split: list.splits)

lemma tokens_line_ending_in_delimiter: "tokens d (l @ [d]) = fields_between d l"
  using tokens_from_fields [of "open_stream (l @ [d])" d]
  by (simp add: tokens_def open_stream_def good_def rest_def fields_between_snoc_delim
      fields_between_nonempty)




section \<open>Timestamps of the temporal read\<close>

lemma next_line_has_time_stamp:
  "next_line r line = (l, r2) \<Longrightarrow> has_time_stamp r2 = has_time_stamp r"
  by (simp add: has_time_stamp_def next_line_schema)

lemma has_next_feature_schema:
  assumes "has_next_feature r = (b, r1)"
  shows "time_idx r1 = time_idx r" and "prev_line r1 = prev_line r"
  using assms
  by (auto simp: has_next_feature_def split: prod.splits)

lemma temporal_read_loop_lengths:
  "temporal_read_loop stof r os first pid geom tss line = (Inr (p, g, ts'), r') \<Longrightarrow>
   has_time_stamp r \<Longrightarrow> length tss = length geom \<Longrightarrow> length ts' = length g"
proof (induction stof r os first pid geom tss line rule: temporal_read_loop.induct)
  case (1 stof r os first pid geom tss line)
  note ih = "1.IH"
  show ?case
  proof (cases os)
    case False
    with "1.prems" show ?thesis
      by (simp add: temporal_read_loop.simps [of stof r False])
  next
    case os: True
    obtain b r1 where h: "has_next_feature r = (b, r1)"
      by (cases "has_next_feature r")
    show ?thesis
    proof (cases b)
      case False
      with "1.prems" os h show ?thesis
        by (simp add: temporal_read_loop.simps [of stof r True])
    next
      case b: True
      obtain l r2 where n: "next_line r1 line = (l, r2)"
        by (cases "next_line r1 line")
      have ts2: "has_time_stamp r2"
        using "1.prems"(2) has_next_feature_schema(1) [OF h] next_line_has_time_stamp [OF n]
        by (simp add: has_time_stamp_def)
      show ?thesis
      proof (cases "temporal_point_fields stof r2 (tokens (delim r2) l) 0 (0, 0, 0, 0)")
        case (Inl e)
        with "1.prems"(1) os h b n show ?thesis
          by (simp add: temporal_read_loop.simps [of stof r True])
      next
        case (Inr v)
        obtain rid x y t where v: "v = (rid, x, y, t)"
          by (cases v)
        let ?geom' = "if pid = rid \<or> first then geom @ [(x, y)] else geom"
        let ?tss' = "if (pid = rid \<or> first) \<and> has_time_stamp r2 then tss @ [t] else tss"
        let ?os' = "if pid \<noteq> rid \<and> \<not> first then False else os"
        let ?r3 = "if \<not> ?os' then r2\<lparr>prev_line := l\<rparr> else r2"
        have "temporal_read_loop stof r os first pid geom tss line =
            temporal_read_loop stof ?r3 ?os' False rid ?geom' ?tss' l"
          using os h b n Inr v
          by (simp add: temporal_read_loop.simps [of stof r True] Let_def)
        with "1.prems"(1)
        have rec: "temporal_read_loop stof ?r3 ?os' False rid ?geom' ?tss' l = (Inr (p, g, ts'), r')"
          by (simp only:)
        have ts3: "has_time_stamp ?r3"
          using ts2 by (simp add: has_time_stamp_def)
        have len: "length ?tss' = length ?geom'"
          using "1.prems"(3) ts2 by simp
        show ?thesis
          by (rule ih [OF os h [symmetric] b n [symmetric] Inr [unfolded v]
                refl refl refl refl refl refl rec ts3 len])
      qed
    qed
  qed
qed

lemma temporal_point_fields_no_time:
  "time_idx r = - 1 \<Longrightarrow> 0 \<le> index \<Longrightarrow>
   temporal_point_fields stof r toks index (rid, x, y, t) =
     (case point_fields stof r toks index (rid, x, y) of
        Inl e \<Rightarrow> Inl e
      | Inr (a, b, c) \<Rightarrow> Inr (a, b, c, t))"
proof (induction toks arbitrary: index rid x y)
  case Nil
  then show ?case
    by simp
next
  case (Cons tok toks)
  from Cons.prems have "index \<noteq> time_idx r" and "0 \<le> index + 1"
    by simp_all
  with Cons.IH [OF Cons.prems(1), of "index + 1"] show ?case
    by (simp split: sum.split split del: if_split)
qed

lemma temporal_read_loop_no_time:
  "time_idx r = - 1 \<Longrightarrow>
   temporal_read_loop stof r os first pid geom [] line =
     (case read_loop stof r os first pid geom line of
        (Inl e, r') \<Rightarrow> (Inl e, r')
      | (Inr (p, g), r') \<Rightarrow> (Inr (p, g, []), r'))"
proof (induction stof r os first pid geom line rule: read_loop.induct)
  case (1 stof r os first pid geom line)
  note ih = "1.IH"
  show ?case
  proof (cases os)
    case False
    then show ?thesis
      by (simp add: temporal_read_loop.simps [of stof r False] read_loop.simps [of stof r False])
  next
    case os: True
    obtain b r1 where h: "has_next_feature r = (b, r1)"
      by (cases "has_next_feature r")
    show ?thesis
    proof (cases b)
      case False
      with os h show ?thesis
        by (simp add: temporal_read_loop.simps [of stof r True] read_loop.simps [of stof r True])
    next
      case b: True
      obtain l r2 where n: "next_line r1 line = (l, r2)"
        by (cases "next_line r1 line")
      have t2: "time_idx r2 = - 1"
        using "1.prems" has_next_feature_schema(1) [OF h] next_line_schema(5) [OF n]
        by simp
      then have nts: "\<not> has_time_stamp r2"
        by (simp add: has_time_stamp_def)
      have f: "temporal_point_fields stof r2 (tokens (delim r2) l) 0 (0, 0, 0, 0) =
          (case point_fields stof r2 (tokens (delim r2) l) 0 (0, 0, 0) of
             Inl e \<Rightarrow> Inl e
           | Inr (a, b, c) \<Rightarrow> Inr (a, b, c, 0))"
        using t2 by (simp add: temporal_point_fields_no_time)
      show ?thesis
      proof (cases "point_fields stof r2 (tokens (delim r2) l) 0 (0, 0, 0)")
        case (Inl e)
        with os h b n f show ?thesis
          by (simp add: temporal_read_loop.simps [of stof r True] read_loop.simps [of stof r True])
      next
        case (Inr v)
        obtain rid x y where v: "v = (rid, x, y)"
          by (cases v)
        let ?geom' = "if pid = rid \<or> first then geom @ [(x, y)] else geom"
        let ?os' = "if pid \<noteq> rid \<and> \<not> first then False else os"
        let ?r3 = "if \<not> ?os' then r2\<lparr>prev_line := l\<rparr> else r2"
        have t3: "time_idx ?r3 = - 1"
          using t2 by simp
        have step: "temporal_read_loop stof ?r3 ?os' False rid ?geom' [] l =
            (case read_loop stof ?r3 ?os' False rid ?geom' l of
               (Inl e, r') \<Rightarrow> (Inl e, r')
             | (Inr (p, g), r') \<Rightarrow> (Inr (p, g, []), r'))"
          by (rule ih [OF os h [symmetric] b n [symmetric] Inr [unfolded v]
                refl refl refl refl t3])
        have "temporal_read_loop stof r os first pid geom [] line =
            temporal_read_loop stof ?r3 ?os' False rid ?geom' [] l"
          using os h b n f Inr v nts
          by (simp add: temporal_read_loop.simps [of stof r True] Let_def)
        moreover have "read_loop stof r os first pid geom line =
            read_loop stof ?r3 ?os' False rid ?geom' l"
          using os h b n Inr v
          by (simp add: read_loop.simps [of stof r True] Let_def)
        ultimately show ?thesis
          using step by simp
      qed
    qed
  qed
qed

text \<open>
  C5. On a reader whose time column was resolved, a temporal read that returns a
  trajectory returns as many timestamps as points. On a reader whose time column was
  not resolved, the temporal read does what the plain read does, error for error and
  reader state for reader state, and the trajectory it returns has the plain read's
  identifier and points and an empty timestamp sequence: the missing column never
  makes it fail, and it never collects a timestamp.
\<close>

theorem temporal_read_timestamps:
  "(time_idx r \<noteq> - 1 \<longrightarrow>
      (case fst (read_next_temporal_trajectory stof r) of
         Inl e \<Rightarrow> True
       | Inr t \<Rightarrow> length (tt_timestamps t) = length (tt_geom t)))
   \<and> (time_idx r = - 1 \<longrightarrow>
      read_next_temporal_trajectory stof r =
        (case read_next_trajectory stof r of
           (Inl e, r') \<Rightarrow> (Inl e, r')
         | (Inr t, r') \<Rightarrow>
             (Inr \<lparr>tt_id = tr_id t, tt_geom = tr_geom t, tt_timestamps = []\<rparr>, r')))"
proof (intro conjI impI)
  assume t: "time_idx r \<noteq> - 1"
  show "case fst (read_next_temporal_trajectory stof r) of
          Inl e \<Rightarrow> True
        | Inr t \<Rightarrow> length (tt_timestamps t) = length (tt_geom t)"
  proof (cases "temporal_read_loop stof r True True (- 1) [] [] []")
    case (Pair res r')
    show ?thesis
    proof (cases res)
      case (Inl e)
      with Pair show ?thesis
        by (simp add: read_next_temporal_trajectory_def)
    next
      case (Inr v)
      obtain p g ts' where v: "v = (p, g, ts')"
        by (cases v)
      from Pair Inr v t have "length ts' = length g"
        using temporal_read_loop_lengths [of stof r True True "- 1" "[]" "[]" "[]" p g ts' r']
        by (simp add: has_time_stamp_def)
      with Pair Inr v show ?thesis
        by (simp add: read_next_temporal_trajectory_def)
    qed
  qed
next
  assume "time_idx r = - 1"
  then show "read_next_temporal_trajectory stof r =
      (case read_next_trajectory stof r of
         (Inl e, r') \<Rightarrow> (Inl e, r')
       | (Inr t, r') \<Rightarrow>
           (Inr \<lparr>tt_id = tr_id t, tt_geom = tr_geom t, tt_timestamps = []\<rparr>, r'))"
    by (simp add: read_next_temporal_trajectory_def read_next_trajectory_def
        temporal_read_loop_no_time split: prod.splits sum.splits)
qed

theorem temporal_read_timestamps_witness:
  "CSVTemporalPointReader ''id,x,y,t\<newline>1,0,0,10\<newline>1,1,1,20\<newline>2,5,5,30\<newline>'' (CHR '','')
       ''id'' ''x'' ''y'' ''t'' = Inr timed_point_reader
   \<and> time_idx timed_point_reader \<noteq> - 1
   \<and> fst (read_next_temporal_trajectory stoi timed_point_reader)
       = Inr \<lparr>tt_id = 2, tt_geom = [(0, 0), (1, 1)], tt_timestamps = [10, 20]\<rparr>
   \<and> length [10, 20 :: int] = length [(0, 0), (1, 1 :: int)]
   \<and> time_idx example_point_reader = - 1
   \<and> fst (read_next_temporal_trajectory stoi example_point_reader)
       = Inr \<lparr>tt_id = 2, tt_geom = [(0, 0), (1, 1)], tt_timestamps = []\<rparr>"
proof -
  have 1: "time_idx timed_point_reader \<noteq> - 1"
    by (simp add: timed_point_reader_def)
  have 2: "fst (read_next_temporal_trajectory stoi timed_point_reader)
      = Inr \<lparr>tt_id = 2, tt_geom = [(0, 0), (1, 1)], tt_timestamps = [10, 20]\<rparr>"
    by code_simp
  have 3: "time_idx example_point_reader = - 1"
    by (simp add: example_point_reader_def)
  have 4: "fst (read_next_trajectory stoi example_point_reader)
      = Inr \<lparr>tr_id = 2, tr_geom = [(0, 0), (1, 1)]\<rparr>"
    by code_simp
  have 5: "fst (read_next_temporal_trajectory stoi example_point_reader)
      = Inr \<lparr>tt_id = 2, tt_geom = [(0, 0), (1, 1)], tt_timestamps = []\<rparr>"
    using temporal_read_timestamps [of example_point_reader stoi] 3 4
    by (simp split: prod.splits sum.splits)
  have 6: "CSVTemporalPointReader ''id,x,y,t\<newline>1,0,0,10\<newline>1,1,1,20\<newline>2,5,5,30\<newline>''
      (CHR '','') ''id'' ''x'' ''y'' ''t'' = Inr timed_point_reader"
    by code_simp
  show ?thesis
    using temporal_read_timestamps [of timed_point_reader stoi] 1 2 3 5 6
    by simp
qed

section \<open>Batch reads\<close>

lemma read_all_loop_prefix_aux:
  "read_all_loop hn rn s acc = Some y \<Longrightarrow> \<forall>ts s'. y = (Inr ts, s') \<longrightarrow> take (length acc) ts = acc"
proof (induct rule: read_all_loop.raw_induct [rotated 1, consumes 1])
  case (1 f hn rn s acc y)
  obtain b s1 where h: "hn s = (b, s1)"
    by (cases "hn s")
  show ?case
  proof (cases b)
    case False
    with "1"(2) h show ?thesis
      by auto
  next
    case True
    obtain res s2 where r: "rn s1 = (res, s2)"
      by (cases "rn s1")
    show ?thesis
    proof (cases res)
      case (Inl e)
      with "1"(2) h True r show ?thesis
        by auto
    next
      case (Inr t)
      with "1"(2) h True r have "f hn rn s2 (acc @ [t]) = Some y"
        by simp
      then have ih: "\<forall>ts s'. y = (Inr ts, s') \<longrightarrow> take (length (acc @ [t])) ts = acc @ [t]"
        by (rule "1"(1))
      show ?thesis
      proof (intro allI impI)
        fix ts s'
        assume "y = (Inr ts, s')"
        with ih have "take (length (acc @ [t])) ts = acc @ [t]"
          by blast
        then have "take (length acc) (take (length (acc @ [t])) ts) = take (length acc) (acc @ [t])"
          by simp
        then show "take (length acc) ts = acc"
          by (simp add: min_def)
      qed
    qed
  qed
qed

lemma read_all_loop_prefix:
  "read_all_loop hn rn s acc = Some (Inr ts, s') \<Longrightarrow> take (length acc) ts = acc"
  using read_all_loop_prefix_aux [of hn rn s acc "(Inr ts, s')"] by blast

lemma read_next_N_loop_take:
  "read_all_loop hn rn s acc = Some (Inr ts, s') \<Longrightarrow>
   fst (read_next_N_loop hn rn N i s acc) = Inr (take (length acc + nat (N - i)) ts)"
proof (induction hn rn N i s acc rule: read_next_N_loop.induct)
  case (1 hn rn N i s acc)
  note ih = "1.IH"
  show ?case
  proof (cases "i < N")
    case False
    then have "fst (read_next_N_loop hn rn N i s acc) = Inr acc"
      by (simp add: read_next_N_loop.simps [of hn rn N i])
    with False read_all_loop_prefix [OF "1.prems"] show ?thesis
      by simp
  next
    case lt: True
    obtain b s1 where h: "hn s = (b, s1)"
      by (cases "hn s")
    show ?thesis
    proof (cases b)
      case False
      with "1.prems" h have "ts = acc"
        by (simp add: read_all_loop.simps [of hn rn s])
      with lt h False show ?thesis
        by (simp add: read_next_N_loop.simps [of hn rn N i])
    next
      case b: True
      obtain res s2 where r: "rn s1 = (res, s2)"
        by (cases "rn s1")
      show ?thesis
      proof (cases res)
        case (Inl e)
        with "1.prems" h b r show ?thesis
          by (simp add: read_all_loop.simps [of hn rn s])
      next
        case (Inr t)
        with "1.prems" h b r have a: "read_all_loop hn rn s2 (acc @ [t]) = Some (Inr ts, s')"
          by (simp add: read_all_loop.simps [of hn rn s])
        have "fst (read_next_N_loop hn rn N (i + 1) s2 (acc @ [t]))
            = Inr (take (length (acc @ [t]) + nat (N - (i + 1))) ts)"
          by (rule ih [OF lt h [symmetric] b r [symmetric] Inr a])
        moreover from lt have "length (acc @ [t]) + nat (N - (i + 1)) = length acc + nat (N - i)"
          by simp
        ultimately have "fst (read_next_N_loop hn rn N (i + 1) s2 (acc @ [t]))
            = Inr (take (length acc + nat (N - i)) ts)"
          by (simp only:)
        moreover have "read_next_N_loop hn rn N i s acc
            = read_next_N_loop hn rn N (i + 1) s2 (acc @ [t])"
          using lt h b r Inr by (simp add: read_next_N_loop.simps [of hn rn N i])
        ultimately show ?thesis
          by (simp only:)
      qed
    qed
  qed
qed

text \<open>
  Draining a point reader always returns, with the trajectories or with the error of a
  malformed field: the value \<open>None\<close> of \<open>read_all_trajectories\<close> does not occur for it.
\<close>

lemma read_loop_progress:
  "read_loop stof r os first pid geom line = (res, r') \<Longrightarrow>
   unread r' \<le> unread r \<and> (os \<and> first \<and> fst (has_next_feature r) \<longrightarrow> unread r' < unread r)"
proof (induction stof r os first pid geom line rule: read_loop.induct)
  case (1 stof r os first pid geom line)
  note ih = "1.IH"
  show ?case
  proof (cases os)
    case False
    with "1.prems" show ?thesis
      by (simp add: read_loop.simps [of stof r False])
  next
    case os: True
    obtain b r1 where h: "has_next_feature r = (b, r1)"
      by (cases "has_next_feature r")
    show ?thesis
    proof (cases b)
      case False
      with "1.prems" os h have "r' = r1"
        by (simp add: read_loop.simps [of stof r True])
      moreover from h have "unread r1 = unread r"
        by (auto simp: has_next_feature_def peek_def unread_def split: if_splits list.splits)
      ultimately show ?thesis
        using h False by simp
    next
      case b: True
      with h have hn: "fst (has_next_feature r)"
        by simp
      note t = has_next_feature_True [OF hn]
      from h t(1) have r1: "r1 = r"
        by simp
      obtain l r2 where n: "next_line r1 line = (l, r2)"
        by (cases "next_line r1 line")
      note pos = next_line_position [OF n [unfolded r1] t(2,3)]
      note sch = next_line_schema [OF n [unfolded r1]]
      have c2: "content (ifs r2) = content (ifs r)"
        using n r1 by (auto simp: next_line_def getline_def Let_def split: if_splits)
      from t(3) have lt: "pos (ifs r) < length (content (ifs r))"
        by (simp add: rest_def)
      have u2: "(prev_line r = [] \<longrightarrow> unread r2 + 2 \<le> unread r)
          \<and> (prev_line r \<noteq> [] \<longrightarrow> unread r2 + 1 = unread r \<and> l = prev_line r)"
      proof (cases "prev_line r = []")
        case True
        have "pos (ifs r) < pos (ifs r2)"
          using n r1 True t(2) lt
          by (auto simp: next_line_def getline_def Let_def rest_def split: if_splits)
        with True c2 lt sch(6) show ?thesis
          by (simp add: unread_def)
      next
        case False
        with pos(2) sch(6) show ?thesis
          by (simp add: unread_def)
      qed
      show ?thesis
      proof (cases "point_fields stof r2 (tokens (delim r2) l) 0 (0, 0, 0)")
        case (Inl e)
        with "1.prems" os h b n have "r' = r2"
          by (simp add: read_loop.simps [of stof r True])
        with u2 show ?thesis
          by auto
      next
        case (Inr v)
        obtain rid x y where v: "v = (rid, x, y)"
          by (cases v)
        let ?geom' = "if pid = rid \<or> first then geom @ [(x, y)] else geom"
        let ?os' = "if pid \<noteq> rid \<and> \<not> first then False else os"
        let ?r3 = "if \<not> ?os' then r2\<lparr>prev_line := l\<rparr> else r2"
        have "read_loop stof r os first pid geom line = read_loop stof ?r3 ?os' False rid ?geom' l"
          using os h b n Inr v
          by (simp add: read_loop.simps [of stof r True] Let_def)
        with "1.prems" have rec: "read_loop stof ?r3 ?os' False rid ?geom' l = (res, r')"
          by (simp only:)
        have le: "unread r' \<le> unread ?r3"
          using ih [OF os h [symmetric] b n [symmetric] Inr [unfolded v] refl refl refl refl rec]
          by blast
        have u3: "unread ?r3 \<le> unread r2 + 1"
          by (simp add: unread_def)
        have u3': "?os' \<longrightarrow> unread ?r3 = unread r2"
          by simp
        have u3'': "prev_line r \<noteq> [] \<longrightarrow> unread ?r3 \<le> unread r"
          using u2 sch(6) by (auto simp: unread_def)
        show ?thesis
        proof (cases "prev_line r = []")
          case True
          with u2 u3 le show ?thesis
            by auto
        next
          case False
          with u3'' le have 1: "unread r' \<le> unread r"
            by auto
          have "first \<longrightarrow> unread r' < unread r"
          proof
            assume first
            then have "?os'"
              using os by simp
            with u3' have "unread ?r3 = unread r2"
              by blast
            with le u2 False show "unread r' < unread r"
              by auto
          qed
          with 1 show ?thesis
            by blast
        qed
      qed
    qed
  qed
qed

lemma read_all_loop_point_reader_returns:
  "read_all_loop has_next_feature (read_next_trajectory stof) r acc \<noteq> None"
proof (induction r arbitrary: acc rule: measure_induct_rule [of unread])
  case (less r)
  obtain b r1 where h: "has_next_feature r = (b, r1)"
    by (cases "has_next_feature r")
  show ?case
  proof (cases b)
    case False
    with h show ?thesis
      by (simp add: read_all_loop.simps [of has_next_feature _ r])
  next
    case True
    with h have hn: "fst (has_next_feature r)"
      by simp
    from h has_next_feature_True(1) [OF hn] have r1: "r1 = r"
      by simp
    obtain res r' where l: "read_loop stof r True True (- 1) [] [] = (res, r')"
      by (cases "read_loop stof r True True (- 1) [] []")
    from read_loop_progress [OF l] hn have lt: "unread r' < unread r"
      by simp
    show ?thesis
    proof (cases res)
      case (Inl e)
      with l have "read_next_trajectory stof r = (Inl e, r')"
        by (simp add: read_next_trajectory_def)
      with h True r1 show ?thesis
        by (simp add: read_all_loop.simps [of has_next_feature _ r])
    next
      case (Inr v)
      obtain p g where v: "v = (p, g)"
        by (cases v)
      from l Inr v have "read_next_trajectory stof r = (Inr \<lparr>tr_id = p, tr_geom = g\<rparr>, r')"
        by (simp add: read_next_trajectory_def)
      moreover from less.IH [OF lt] have
        "read_all_loop has_next_feature (read_next_trajectory stof) r'
           (acc @ [\<lparr>tr_id = p, tr_geom = g\<rparr>]) \<noteq> None" .
      ultimately show ?thesis
        using h True r1
        by (simp add: read_all_loop.simps [of has_next_feature _ r])
    qed
  qed
qed

lemma read_all_trajectories_point_reader_returns:
  "\<exists>res r'. read_all_trajectories has_next_feature (read_next_trajectory stof) r = Some (res, r')"
  using read_all_loop_point_reader_returns [of stof r "[]"]
  by (auto simp: read_all_trajectories_def)

text \<open>
  C7. For every reader state from which draining the reader (\<^verbatim>\<open>read_all_trajectories\<close>)
  returns the trajectories \<open>ts\<close> with no error, that is, with \<open>length ts\<close> trajectories
  remaining, and for every \<open>n\<close>, \<^verbatim>\<open>read_next_N_trajectories(n)\<close> returns without an error
  the first \<open>n\<close> of them, all of them when there are fewer: a sequence of length
  \<open>min n (length ts)\<close>. (A negative \<open>n\<close> gives the empty sequence.) The functions
  \<open>hn\<close> and \<open>rn\<close> are the reader's \<^verbatim>\<open>has_next_feature\<close> and \<^verbatim>\<open>read_next_trajectory\<close>.
\<close>

theorem read_next_N_length:
  assumes "read_all_trajectories hn rn s = Some (Inr ts, s')"
  shows "fst (read_next_N_trajectories hn rn n s) = Inr (take (nat n) ts)
       \<and> length (take (nat n) ts) = min (nat n) (length ts)"
  using read_next_N_loop_take [of hn rn s "[]" ts s' n 0] assms
  by (simp add: read_all_trajectories_def read_next_N_trajectories_def min.commute)

theorem read_next_N_length_witness:
  "CSVTemporalPointReader ''id,x,y\<newline>1,0,0\<newline>2,5,5\<newline>2,6,6\<newline>3,1,1\<newline>3,2,2\<newline>'' (CHR '','')
       ''id'' ''x'' ''y'' ''t'' = Inr three_run_point_reader
   \<and> map_option fst
     (read_all_trajectories has_next_feature (read_next_trajectory stoi) three_run_point_reader)
     = Some (Inr [\<lparr>tr_id = 2, tr_geom = [(0, 0)]\<rparr>,
                  \<lparr>tr_id = 3, tr_geom = [(5, 5), (6, 6)]\<rparr>,
                  \<lparr>tr_id = 3, tr_geom = [(1, 1), (2, 2)]\<rparr>])
   \<and> fst (read_next_N_trajectories has_next_feature (read_next_trajectory stoi) 2
            three_run_point_reader)
       = Inr [\<lparr>tr_id = 2, tr_geom = [(0, 0)]\<rparr>, \<lparr>tr_id = 3, tr_geom = [(5, 5), (6, 6)]\<rparr>]
   \<and> fst (read_next_N_trajectories has_next_feature (read_next_trajectory stoi) 5
            three_run_point_reader)
       = Inr [\<lparr>tr_id = 2, tr_geom = [(0, 0)]\<rparr>, \<lparr>tr_id = 3, tr_geom = [(5, 5), (6, 6)]\<rparr>,
              \<lparr>tr_id = 3, tr_geom = [(1, 1), (2, 2)]\<rparr>]"
proof -
  let ?all = "read_all_trajectories has_next_feature (read_next_trajectory stoi)
      three_run_point_reader"
  let ?ts = "[\<lparr>tr_id = 2, tr_geom = [(0, 0 :: int)]\<rparr>, \<lparr>tr_id = 3, tr_geom = [(5, 5), (6, 6)]\<rparr>,
      \<lparr>tr_id = 3, tr_geom = [(1, 1), (2, 2)]\<rparr>]"
  have 0: "map_option fst ?all = Some (Inr ?ts)"
    by code_simp
  then have 1: "?all = Some (Inr ?ts, snd (the ?all))"
    by (cases ?all) auto
  have 2: "CSVTemporalPointReader ''id,x,y\<newline>1,0,0\<newline>2,5,5\<newline>2,6,6\<newline>3,1,1\<newline>3,2,2\<newline>''
      (CHR '','') ''id'' ''x'' ''y'' ''t'' = Inr three_run_point_reader"
    by code_simp
  show ?thesis
    using 0 2 read_next_N_length [OF 1, of 2] read_next_N_length [OF 1, of 5]
    by simp
qed

section \<open>The example of the specification\<close>

text \<open>
  C1. The specification's example: the rows \<^verbatim>\<open>1,0,0\<close>, \<^verbatim>\<open>1,1,1\<close>, \<^verbatim>\<open>2,5,5\<close> under the
  header \<^verbatim>\<open>id,x,y\<close> should give trajectory 1 with the points (0,0), (1,1) and then
  trajectory 2 with the point (5,5). The code gives something else: the first read
  returns the two points of the first run under the identifier 2, because
  \<^verbatim>\<open>prev_id = id\<close> is executed for the record that ends the run as well, before
  \<^verbatim>\<open>prev_id\<close> is returned; then \<^verbatim>\<open>has_next_feature()\<close> is false, although the record
  \<^verbatim>\<open>2,5,5\<close> is held in \<^verbatim>\<open>prev_line\<close>, so draining the reader yields one trajectory, and a
  further read returns the identifier \<open>-1\<close> and no point. The same holds when the last
  line of the file has no line end.
\<close>

theorem point_stream_example_reads:
  "CSVTemporalPointReader ''id,x,y\<newline>1,0,0\<newline>1,1,1\<newline>2,5,5\<newline>'' (CHR '','')
       ''id'' ''x'' ''y'' ''t'' = Inr example_point_reader
   \<and> fst (read_next_trajectory stoi example_point_reader)
       = Inr \<lparr>tr_id = 2, tr_geom = [(0, 0), (1, 1)]\<rparr>
   \<and> fst (read_next_trajectory stoi (snd (read_next_trajectory stoi example_point_reader)))
       = Inr \<lparr>tr_id = - 1, tr_geom = []\<rparr>
   \<and> map_option fst
         (read_all_trajectories has_next_feature (read_next_trajectory stoi) example_point_reader)
       = Some (Inr [\<lparr>tr_id = 2, tr_geom = [(0, 0), (1, 1)]\<rparr>])
   \<and> map_sum (\<lambda>e. e)
         (\<lambda>r. map_option fst
                (read_all_trajectories has_next_feature (read_next_trajectory stoi) r))
         (CSVTemporalPointReader ''id,x,y\<newline>1,0,0\<newline>1,1,1\<newline>2,5,5'' (CHR '','')
            ''id'' ''x'' ''y'' ''t'')
       = Inr (Some (Inr [\<lparr>tr_id = 2, tr_geom = [(0, 0), (1, 1)]\<rparr>]))"
  by code_simp

text \<open>
  C2. \<^verbatim>\<open>has_next_feature()\<close> looks at the file only: its answer does not depend on
  \<^verbatim>\<open>prev_line\<close>. After the first read of the example the record \<^verbatim>\<open>2,5,5\<close> is held in
  \<^verbatim>\<open>prev_line\<close> and the file is exhausted; \<^verbatim>\<open>has_next_feature()\<close> is false, where the
  claim has it true.
\<close>

theorem has_next_feature_ignores_prev_line:
  "fst (has_next_feature (r\<lparr>prev_line := l\<rparr>)) = fst (has_next_feature r)
   \<and> prev_line (snd (read_next_trajectory stoi example_point_reader)) = ''2,5,5''
   \<and> rest (ifs (snd (read_next_trajectory stoi example_point_reader))) = []
   \<and> fst (has_next_feature (snd (read_next_trajectory stoi example_point_reader))) = False"
proof -
  have "fst (has_next_feature (r\<lparr>prev_line := l\<rparr>)) = fst (has_next_feature r)"
    by (simp add: has_next_feature_def split: prod.splits)
  moreover have "prev_line (snd (read_next_trajectory stoi example_point_reader)) = ''2,5,5''
      \<and> rest (ifs (snd (read_next_trajectory stoi example_point_reader))) = []
      \<and> fst (has_next_feature (snd (read_next_trajectory stoi example_point_reader))) = False"
    by code_simp
  ultimately show ?thesis
    by blast
qed

text \<open>
  C4. \<^verbatim>\<open>reset_cursor()\<close> repositions the file after the header and leaves \<^verbatim>\<open>prev_line\<close>
  as it is. On the example, the first drain yields one trajectory and leaves \<^verbatim>\<open>2,5,5\<close>
  in \<^verbatim>\<open>prev_line\<close>; after \<^verbatim>\<open>reset_cursor()\<close> the drain starts with that stale record and
  yields two trajectories, not the sequence of the first drain.
\<close>

theorem reset_cursor_keeps_prev_line:
  "prev_line (reset_cursor r) = prev_line r
   \<and> map_option fst
         (read_all_trajectories has_next_feature (read_next_trajectory stoi) example_point_reader)
       = Some (Inr [\<lparr>tr_id = 2, tr_geom = [(0, 0), (1, 1)]\<rparr>])
   \<and> Option.bind
         (read_all_trajectories has_next_feature (read_next_trajectory stoi) example_point_reader)
         (\<lambda>(first_drain, r1).
            map_option fst
              (read_all_trajectories has_next_feature (read_next_trajectory stoi)
                 (reset_cursor r1)))
       = Some (Inr [\<lparr>tr_id = 1, tr_geom = [(5, 5)]\<rparr>, \<lparr>tr_id = 2, tr_geom = [(0, 0), (1, 1)]\<rparr>])"
proof -
  have "prev_line (reset_cursor r) = prev_line r"
    by (simp add: reset_cursor_def)
  moreover have "map_option fst
         (read_all_trajectories has_next_feature (read_next_trajectory stoi) example_point_reader)
       = Some (Inr [\<lparr>tr_id = 2, tr_geom = [(0, 0), (1, 1)]\<rparr>])
   \<and> Option.bind
         (read_all_trajectories has_next_feature (read_next_trajectory stoi) example_point_reader)
         (\<lambda>(first_drain, r1).
            map_option fst
              (read_all_trajectories has_next_feature (read_next_trajectory stoi)
                 (reset_cursor r1)))
       = Some (Inr [\<lparr>tr_id = 1, tr_geom = [(5, 5)]\<rparr>, \<lparr>tr_id = 2, tr_geom = [(0, 0), (1, 1)]\<rparr>])"
    by code_simp
  ultimately show ?thesis
    by blast
qed

end
